theory Spec2Isabelle
  imports Complex_Main "HOL-Library.Word"
begin

section \<open>Rounded philosopher portraits: \<open>process_images.py\<close>\<close>

text \<open>
  The script opens a portrait, crops the centre square, resizes it, cuts a filled
  ellipse out of it through the alpha channel and saves the result as a PNG; its
  driver does so for five fixed file names. Python integers are \<open>int\<close>, pixel
  channels are bytes.
\<close>

subsection \<open>Images\<close>

type_synonym channel = "8 word"

record rgba =
  red :: channel
  green :: channel
  blue :: channel
  alpha :: channel

text \<open>
  An image has a size and a value at every position; only the positions
  \<open>0 \<le> x < width\<close>, \<open>0 \<le> y < height\<close> belong to it. Mode \<open>RGBA\<close> is
  \<open>rgba image\<close>, mode \<open>L\<close> is \<open>channel image\<close>.
\<close>

record 'p image =
  width :: int
  height :: int
  pix :: "int \<Rightarrow> int \<Rightarrow> 'p"

type_synonym box = "int \<times> int \<times> int \<times> int"

definition inside :: "'p image \<Rightarrow> int \<Rightarrow> int \<Rightarrow> bool" where
  "inside img x y \<longleftrightarrow> 0 \<le> x \<and> x < width img \<and> 0 \<le> y \<and> y < height img"

subsection \<open>The centre crop (lines 17 to 27)\<close>

text \<open>
  \<^verbatim>\<open>min_dim = min(width, height)\<close>,
  \<^verbatim>\<open>left = (width - min_dim) // 2\<close>, \<^verbatim>\<open>top = (height - min_dim) // 2\<close>,
  \<^verbatim>\<open>right = left + min_dim\<close>, \<^verbatim>\<open>bottom = top + min_dim\<close>.
  Python's \<open>//\<close> rounds towards minus infinity, as \<open>div\<close> on \<open>int\<close> does.
  The arguments \<open>w\<close> and \<open>h\<close> are the source's \<open>width\<close> and \<open>height\<close>, and
  \<open>upper\<close> and \<open>lower\<close> its \<open>top\<close> and \<open>bottom\<close> (in HOL these four names are
  constants).
\<close>

definition crop_box :: "int \<Rightarrow> int \<Rightarrow> box" where
  "crop_box w h =
     (let min_dim = min w h;
          left = (w - min_dim) div 2;
          upper = (h - min_dim) div 2;
          right = left + min_dim;
          lower = upper + min_dim
      in (left, upper, right, lower))"

text \<open>
  \<open>Image.crop\<close>: the result has the size of the box and shows the source shifted by
  the box's corner; a position of the box outside the source is transparent black.
\<close>

definition transparent :: rgba where
  "transparent = \<lparr>red = 0, green = 0, blue = 0, alpha = 0\<rparr>"

definition crop :: "rgba image \<Rightarrow> box \<Rightarrow> rgba image" where
  "crop img bx =
     (case bx of (left, upper, right, lower) \<Rightarrow>
        \<lparr>width = right - left, height = lower - upper,
         pix = (\<lambda>x y. if inside img (x + left) (y + upper)
                       then pix img (x + left) (y + upper) else transparent)\<rparr>)"

definition cropped :: "rgba image \<Rightarrow> rgba image" where
  "cropped img = crop img (crop_box (width img) (height img))"

subsection \<open>The operations of the imaging library that the script calls\<close>

datatype error = FileNotFoundError | UnidentifiedImageError | ValueError | OSError

text \<open>
  The script fixes neither the values that the Lanczos filter computes nor the set
  of positions that the ellipse rasteriser fills for a bounding box: both belong to
  the library. They are parameters of the model: \<open>lanczos lib img sz x y\<close> is the
  value of the resampled image at \<open>(x, y)\<close>, and \<open>ellipse_fills lib xy x y\<close> says
  whether the ellipse drawn for the bounding box \<open>xy\<close> covers \<open>(x, y)\<close>.
\<close>

record imaging =
  lanczos :: "rgba image \<Rightarrow> int \<times> int \<Rightarrow> int \<Rightarrow> int \<Rightarrow> rgba"
  ellipse_fills :: "box \<Rightarrow> int \<Rightarrow> int \<Rightarrow> bool"

text \<open>
  \<open>Image.resize\<close> returns an image of the requested size, and refuses a size with a
  side below one.
\<close>

definition resize :: "imaging \<Rightarrow> rgba image \<Rightarrow> int \<times> int \<Rightarrow> error + rgba image" where
  "resize lib img sz =
     (if fst sz < 1 \<or> snd sz < 1 then Inl ValueError
      else Inr \<lparr>width = fst sz, height = snd sz, pix = lanczos lib img sz\<rparr>)"

text \<open>\<open>Image.new\<close>: one colour everywhere; a negative side is refused.\<close>

definition new :: "int \<times> int \<Rightarrow> 'p \<Rightarrow> error + 'p image" where
  "new sz color =
     (if fst sz < 0 \<or> snd sz < 0 then Inl ValueError
      else Inr \<lparr>width = fst sz, height = snd sz, pix = (\<lambda>x y. color)\<rparr>)"

text \<open>
  \<open>ImageDraw.Draw(mask).ellipse(xy, fill)\<close> writes \<open>fill\<close> at the covered positions
  of the image and leaves the others as they are.
\<close>

definition ellipse :: "imaging \<Rightarrow> channel image \<Rightarrow> box \<Rightarrow> channel \<Rightarrow> channel image" where
  "ellipse lib m xy fill =
     m\<lparr>pix := (\<lambda>x y. if inside m x y \<and> ellipse_fills lib xy x y then fill else pix m x y)\<rparr>"

text \<open>
  \<open>Image.paste(im, (x0, y0))\<close> with no mask copies \<open>im\<close>, all four channels, to the
  positions from \<open>(x0, y0)\<close> on, as far as they belong to the target.
\<close>

definition paste :: "rgba image \<Rightarrow> rgba image \<Rightarrow> int \<times> int \<Rightarrow> rgba image" where
  "paste dst im corner =
     dst\<lparr>pix := (\<lambda>x y. if inside dst x y \<and> inside im (x - fst corner) (y - snd corner)
                        then pix im (x - fst corner) (y - snd corner) else pix dst x y)\<rparr>"

text \<open>
  \<open>Image.putalpha(mask)\<close> replaces the alpha channel by the mask, which must have the
  image's size.
\<close>

definition putalpha :: "rgba image \<Rightarrow> channel image \<Rightarrow> error + rgba image" where
  "putalpha im m =
     (if width m \<noteq> width im \<or> height m \<noteq> height im then Inl ValueError
      else Inr (im\<lparr>pix := (\<lambda>x y. (pix im x y)\<lparr>alpha := pix m x y\<rparr>)\<rparr>))"

subsection \<open>Files and the console\<close>

text \<open>
  A file that holds an image is given by the RGBA image that
  \<^verbatim>\<open>Image.open(path).convert("RGBA")\<close> reads from it; PNG stores an RGBA image
  without loss, so a saved image is read back as itself. Any other file that exists
  is \<open>Unreadable\<close>. The console is the list of the strings printed so far.
\<close>

datatype entry = Picture "rgba image" | Unreadable

record world =
  files :: "string \<Rightarrow> entry option"
  writable :: "string \<Rightarrow> bool"
  console :: "string list"

definition path_exists :: "world \<Rightarrow> string \<Rightarrow> bool" where
  "path_exists w p \<longleftrightarrow> files w p \<noteq> None"

definition open_rgba :: "world \<Rightarrow> string \<Rightarrow> error + rgba image" where
  "open_rgba w p =
     (case files w p of
        None \<Rightarrow> Inl FileNotFoundError
      | Some Unreadable \<Rightarrow> Inl UnidentifiedImageError
      | Some (Picture img) \<Rightarrow> Inr img)"

definition save :: "world \<Rightarrow> rgba image \<Rightarrow> string \<Rightarrow> error + world" where
  "save w im p =
     (if writable w p then Inr (w\<lparr>files := (files w)(p \<mapsto> Picture im)\<rparr>) else Inl OSError)"

definition print :: "world \<Rightarrow> string \<Rightarrow> world" where
  "print w s = w\<lparr>console := console w @ [s]\<rparr>"

subsection \<open>\<open>create_rounded_portrait\<close> (lines 10 to 44)\<close>

text \<open>
  Lines 17 to 40, on the opened image: crop, resize, draw the mask, paste on a
  transparent canvas, put the mask in the alpha channel. An exception of a library
  call ends the function with that error.
\<close>

definition rounded :: "imaging \<Rightarrow> rgba image \<Rightarrow> int \<times> int \<Rightarrow> error + rgba image" where
  "rounded lib img0 sz =
     (let img1 = cropped img0 in
      case resize lib img1 sz of Inl e \<Rightarrow> Inl e | Inr img \<Rightarrow>
      (case new sz 0 of Inl e \<Rightarrow> Inl e | Inr mask0 \<Rightarrow>
       (let mask = ellipse lib mask0 (0, 0, fst sz, snd sz) 255 in
        case new sz \<lparr>red = 0, green = 0, blue = 0, alpha = 0\<rparr> of Inl e \<Rightarrow> Inl e | Inr output0 \<Rightarrow>
        (let output1 = paste output0 img (0, 0) in putalpha output1 mask))))"

definition create_rounded_portrait ::
  "imaging \<Rightarrow> world \<Rightarrow> string \<Rightarrow> string \<Rightarrow> int \<times> int \<Rightarrow> error + world" where
  "create_rounded_portrait lib w input_path output_path sz =
     (case open_rgba w input_path of Inl e \<Rightarrow> Inl e | Inr img \<Rightarrow>
      (case rounded lib img sz of Inl e \<Rightarrow> Inl e | Inr output \<Rightarrow>
       (case save w output output_path of Inl e \<Rightarrow> Inl e | Inr w' \<Rightarrow>
          Inr (print w' (''Created '' @ output_path)))))"

text \<open>The default of the parameter \<open>size\<close>.\<close>

definition default_size :: "int \<times> int" where
  "default_size = (50, 50)"

subsection \<open>The driver \<open>main\<close> (lines 47 to 63)\<close>

definition philosophers :: "(string \<times> string) list" where
  "philosophers =
     [(''socrates.jpg'', ''socrates-rounded.png''),
      (''plato.jpg'', ''plato-rounded.png''),
      (''aristotle.jpg'', ''aristotle-rounded.png''),
      (''nietzsche.jpg'', ''nietzsche-rounded.png''),
      (''descartes.jpg'', ''descartes-rounded.png'')]"

text \<open>The body of the loop, and the loop; an error of the transform ends the run.\<close>

definition process_pair :: "imaging \<Rightarrow> world \<Rightarrow> string \<times> string \<Rightarrow> error + world" where
  "process_pair lib w pr =
     (case pr of (input_file, output_file) \<Rightarrow>
        if path_exists w input_file
        then create_rounded_portrait lib w input_file output_file default_size
        else Inr (print w (''Warning: '' @ input_file @ '' not found'')))"

fun process_pairs :: "imaging \<Rightarrow> world \<Rightarrow> (string \<times> string) list \<Rightarrow> error + world" where
  "process_pairs lib w [] = Inr w"
| "process_pairs lib w (pr # rest) =
     (case process_pair lib w pr of Inl e \<Rightarrow> Inl e | Inr w' \<Rightarrow> process_pairs lib w' rest)"

definition main :: "imaging \<Rightarrow> world \<Rightarrow> error + world" where
  "main lib w =
     (case process_pairs lib w philosophers of
        Inl e \<Rightarrow> Inl e
      | Inr w' \<Rightarrow>
          Inr (print (print w' (CHR 0x0A # ''All portraits processed!''))
                 ''Move the -rounded.png files to the parent directory to use them.''))"

subsection \<open>What a run of the loop prints and needs\<close>

text \<open>
  \<open>report w pr\<close> is the line that the loop prints for the pair \<open>pr\<close> when the input
  exists or not in \<open>w\<close>; \<open>ready w ps\<close> says that every input of \<open>ps\<close> that exists in
  \<open>w\<close> holds an image and that its output path is writable.
\<close>

definition report :: "world \<Rightarrow> string \<times> string \<Rightarrow> string" where
  "report w pr = (case pr of (inp, outp) \<Rightarrow>
      if path_exists w inp then ''Created '' @ outp else ''Warning: '' @ inp @ '' not found'')"

definition ready :: "world \<Rightarrow> (string \<times> string) list \<Rightarrow> bool" where
  "ready w ps \<longleftrightarrow>
     (\<forall>(inp, outp) \<in> set ps. path_exists w inp \<longrightarrow>
        (\<exists>img. files w inp = Some (Picture img)) \<and> writable w outp)"

subsection \<open>An instance for evaluation\<close>

text \<open>
  A library whose resampling takes the nearest source pixel and whose ellipse is the
  disc of the points \<open>(2x + 1 - w)\<^sup>2 + (2y + 1 - w)\<^sup>2 \<le> w\<^sup>2\<close> of a square box of
  side \<open>w\<close>; a picture of 4 by 2 pixels whose red channel is the column and whose
  green channel is the row; and a directory that holds it as \<open>socrates.jpg\<close>.
\<close>

definition nearest_lib :: imaging where
  "nearest_lib =
     \<lparr>lanczos = (\<lambda>img sz x y. pix img (x * width img div fst sz) (y * height img div snd sz)),
      ellipse_fills = (\<lambda>xy x y. case xy of (x0, y0, x1, y1) \<Rightarrow>
         (2 * (x - x0) + 1 - (x1 - x0))\<^sup>2 + (2 * (y - y0) + 1 - (x1 - x0))\<^sup>2 \<le> (x1 - x0)\<^sup>2)\<rparr>"

definition stripes :: "rgba image" where
  "stripes =
     \<lparr>width = 4, height = 2,
      pix = (\<lambda>x y. \<lparr>red = word_of_int x, green = word_of_int y, blue = 7, alpha = 255\<rparr>)\<rparr>"

definition studio :: world where
  "studio =
     \<lparr>files = [''socrates.jpg'' \<mapsto> Picture stripes],
      writable = (\<lambda>p. True),
      console = []\<rparr>"

section \<open>Properties\<close>

subsection \<open>The crop box\<close>

lemma floor_half: "\<lfloor>real_of_int k / 2\<rfloor> = k div 2"
  using floor_divide_of_int_eq [of k 2] by simp

lemma crop_box_eq:
  "crop_box w h = ((w - min w h) div 2, (h - min w h) div 2,
                   (w - min w h) div 2 + min w h, (h - min w h) div 2 + min w h)"
  by (simp add: crop_box_def Let_def)

lemma crop_box_left_bounds:
  fixes w h :: int
  shows "0 \<le> (w - min w h) div 2" "(w - min w h) div 2 + min w h \<le> w"
  unfolding min_def by (simp_all split: if_splits) linarith+

lemma crop_box_upper_bounds:
  fixes w h :: int
  shows "0 \<le> (h - min w h) div 2" "(h - min w h) div 2 + min w h \<le> h"
  unfolding min_def by (simp_all split: if_splits) linarith+

lemma width_cropped: "width (cropped img) = min (width img) (height img)"
  by (simp add: cropped_def crop_def crop_box_eq)

lemma height_cropped: "height (cropped img) = min (width img) (height img)"
  by (simp add: cropped_def crop_def crop_box_eq)

lemma pix_cropped:
  assumes "inside (cropped img) x y"
  shows "pix (cropped img) x y =
         pix img (x + (width img - min (width img) (height img)) div 2)
                 (y + (height img - min (width img) (height img)) div 2)"
proof -
  let ?w = "width img" and ?h = "height img"
  from assms have x: "0 \<le> x" "x < min ?w ?h" and y: "0 \<le> y" "y < min ?w ?h"
    by (simp_all add: inside_def width_cropped height_cropped)
  have "inside img (x + (?w - min ?w ?h) div 2) (y + (?h - min ?w ?h) div 2)"
    using x y crop_box_left_bounds [of ?w ?h] crop_box_upper_bounds [of ?w ?h]
    unfolding inside_def by linarith
  then show ?thesis
    by (simp add: cropped_def crop_def crop_box_eq)
qed

text \<open>
  Claim C3. The crop box is \<open>left = \<lfloor>(width - minDim) / 2\<rfloor>\<close>,
  \<open>top = \<lfloor>(height - minDim) / 2\<rfloor>\<close>, \<open>right = left + minDim\<close>,
  \<open>bottom = top + minDim\<close> with \<open>minDim = min width height\<close>; the cropped image is a
  square of side \<open>minDim\<close>, and its pixel at \<open>(x, y)\<close> is the source's pixel at
  \<open>(left + x, top + y)\<close>: the half-open rectangle, unscaled.
\<close>

theorem crop_box_center_square:
  "crop_box w h =
     (\<lfloor>real_of_int (w - min w h) / 2\<rfloor>, \<lfloor>real_of_int (h - min w h) / 2\<rfloor>,
      \<lfloor>real_of_int (w - min w h) / 2\<rfloor> + min w h, \<lfloor>real_of_int (h - min w h) / 2\<rfloor> + min w h)
   \<and> (width img = w \<and> height img = h \<longrightarrow>
        width (cropped img) = min w h \<and> height (cropped img) = min w h \<and>
        (\<forall>x y. 0 \<le> x \<and> x < min w h \<and> 0 \<le> y \<and> y < min w h \<longrightarrow>
           pix (cropped img) x y =
           pix img (\<lfloor>real_of_int (w - min w h) / 2\<rfloor> + x) (\<lfloor>real_of_int (h - min w h) / 2\<rfloor> + y)))"
  unfolding floor_half
proof (intro conjI impI allI)
  show "crop_box w h = ((w - min w h) div 2, (h - min w h) div 2,
      (w - min w h) div 2 + min w h, (h - min w h) div 2 + min w h)"
    by (rule crop_box_eq)
next
  assume "width img = w \<and> height img = h"
  then show "width (cropped img) = min w h" by (simp add: width_cropped)
next
  assume "width img = w \<and> height img = h"
  then show "height (cropped img) = min w h" by (simp add: height_cropped)
next
  fix x y
  assume wh: "width img = w \<and> height img = h"
    and xy: "0 \<le> x \<and> x < min w h \<and> 0 \<le> y \<and> y < min w h"
  then have "inside (cropped img) x y"
    by (simp add: inside_def width_cropped height_cropped)
  from pix_cropped [OF this] wh
  show "pix (cropped img) x y = pix img ((w - min w h) div 2 + x) ((h - min w h) div 2 + y)"
    by (simp add: add.commute)
qed

theorem crop_box_center_square_witness:
  "crop_box 4 2 = (1, 0, 3, 2) \<and> width (cropped stripes) = 2 \<and> height (cropped stripes) = 2
   \<and> pix (cropped stripes) 1 1 = \<lparr>red = 2, green = 1, blue = 7, alpha = 255\<rparr>"
  using crop_box_center_square [of 4 2 stripes]
  by (simp add: stripes_def)


text \<open>
  Claim C8. For a square input the crop box is the whole image, \<open>(0, 0, W, W)\<close>, and
  the crop keeps the size and every pixel.
\<close>

theorem crop_box_square_identity:
  "crop_box w w = (0, 0, w, w)
   \<and> (width img = height img \<longrightarrow>
        width (cropped img) = width img \<and> height (cropped img) = height img \<and>
        (\<forall>x y. inside img x y \<longrightarrow> pix (cropped img) x y = pix img x y))"
proof (intro conjI impI allI)
  show "crop_box w w = (0, 0, w, w)"
    by (simp add: crop_box_eq)
next
  assume "width img = height img"
  then show "width (cropped img) = width img"
    by (simp add: width_cropped)
next
  assume "width img = height img"
  then show "height (cropped img) = height img"
    by (simp add: height_cropped)
next
  fix x y
  assume sq: "width img = height img" and xy: "inside img x y"
  then have "inside (cropped img) x y"
    by (simp add: inside_def width_cropped height_cropped)
  from pix_cropped [OF this] sq show "pix (cropped img) x y = pix img x y"
    by simp
qed

theorem crop_box_square_identity_witness:
  "crop_box 3 3 = (0, 0, 3, 3)
   \<and> width (cropped (stripes\<lparr>height := 4\<rparr>)) = 4 \<and> height (cropped (stripes\<lparr>height := 4\<rparr>)) = 4
   \<and> pix (cropped (stripes\<lparr>height := 4\<rparr>)) 3 2 = \<lparr>red = 3, green = 2, blue = 7, alpha = 255\<rparr>"
  using crop_box_square_identity [of 3 "stripes\<lparr>height := 4\<rparr>"]
  by (simp add: stripes_def inside_def)

text \<open>
  Claim C9. When the width is the longer side, the margins \<open>left\<close> and
  \<open>width - right\<close> are equal if \<open>width - minDim\<close> is even and differ by exactly one
  pixel, the right one being larger, if it is odd, and nothing is removed from the
  height; likewise for \<open>top\<close> and \<open>height - bottom\<close> when the height is the longer
  side.
\<close>

theorem crop_box_symmetric_margins:
  "(h < w \<longrightarrow> (case crop_box w h of (left, upper, right, lower) \<Rightarrow>
       upper = 0 \<and> lower = h \<and>
       (even (w - min w h) \<longrightarrow> w - right = left) \<and>
       (odd (w - min w h) \<longrightarrow> (w - right) - left = 1)))
   \<and> (w < h \<longrightarrow> (case crop_box w h of (left, upper, right, lower) \<Rightarrow>
       left = 0 \<and> right = w \<and>
       (even (h - min w h) \<longrightarrow> h - lower = upper) \<and>
       (odd (h - min w h) \<longrightarrow> (h - lower) - upper = 1)))"
proof (intro conjI impI)
  assume "h < w"
  then have m: "min w h = h" by simp
  show "case crop_box w h of (left, upper, right, lower) \<Rightarrow>
       upper = 0 \<and> lower = h \<and>
       (even (w - min w h) \<longrightarrow> w - right = left) \<and>
       (odd (w - min w h) \<longrightarrow> (w - right) - left = 1)"
    unfolding crop_box_eq m by simp presburger
next
  assume "w < h"
  then have m: "min w h = w" by simp
  show "case crop_box w h of (left, upper, right, lower) \<Rightarrow>
       left = 0 \<and> right = w \<and>
       (even (h - min w h) \<longrightarrow> h - lower = upper) \<and>
       (odd (h - min w h) \<longrightarrow> (h - lower) - upper = 1)"
    unfolding crop_box_eq m by simp presburger
qed

theorem crop_box_symmetric_margins_witness:
  "crop_box 5 2 = (1, 0, 3, 2) \<and> (5 - 3) - 1 = (1::int)
   \<and> crop_box 6 2 = (2, 0, 4, 2) \<and> 6 - 4 = (2::int)
   \<and> crop_box 2 5 = (0, 1, 2, 3) \<and> crop_box 2 6 = (0, 2, 2, 4)"
  using crop_box_symmetric_margins [of 2 5] crop_box_symmetric_margins [of 2 6]
    crop_box_symmetric_margins [of 5 2] crop_box_symmetric_margins [of 6 2]
  by (simp add: crop_box_eq)

text \<open>
  Claim C10. For a width and a height of at least one, the crop box lies in the
  image, \<open>0 \<le> left \<le> right \<le> W\<close> and \<open>0 \<le> top \<le> bottom \<le> H\<close>, and is a square
  of side \<open>min W H\<close>.
\<close>

theorem crop_box_in_bounds:
  assumes "1 \<le> w" and "1 \<le> h"
  shows "case crop_box w h of (left, upper, right, lower) \<Rightarrow>
           0 \<le> left \<and> left \<le> right \<and> right \<le> w \<and>
           0 \<le> upper \<and> upper \<le> lower \<and> lower \<le> h \<and>
           right - left = min w h \<and> lower - upper = min w h"
  using assms crop_box_left_bounds [of w h] crop_box_upper_bounds [of w h]
  unfolding crop_box_eq by simp

theorem crop_box_in_bounds_witness:
  "(1::int) \<le> 200 \<and> (1::int) \<le> 100 \<and> crop_box 200 100 = (50, 0, 150, 100)
   \<and> (0::int) \<le> 50 \<and> (50::int) \<le> 150 \<and> (150::int) \<le> 200 \<and> (150::int) - 50 = min 200 100"
  using crop_box_in_bounds [of 200 100]
  by (simp add: crop_box_eq)


subsection \<open>The transform\<close>

lemma rounded_fails: "fst sz < 1 \<or> snd sz < 1 \<Longrightarrow> rounded lib img sz = Inl ValueError"
  by (simp add: rounded_def resize_def)

lemma rounded_succeeds:
  assumes "1 \<le> fst sz" and "1 \<le> snd sz"
  shows "rounded lib img sz =
     Inr \<lparr>width = fst sz, height = snd sz,
          pix = (\<lambda>x y. (if 0 \<le> x \<and> x < fst sz \<and> 0 \<le> y \<and> y < snd sz
                          then lanczos lib (cropped img) sz x y else transparent)
                   \<lparr>alpha := if 0 \<le> x \<and> x < fst sz \<and> 0 \<le> y \<and> y < snd sz \<and>
                                 ellipse_fills lib (0, 0, fst sz, snd sz) x y
                              then 255 else 0\<rparr>)\<rparr>"
  using assms
  by (simp add: rounded_def resize_def new_def ellipse_def paste_def putalpha_def inside_def
      transparent_def Let_def cong: if_cong)

lemma rounded_size:
  assumes "rounded lib img sz = Inr out"
  shows "width out = fst sz \<and> height out = snd sz"
proof (cases "fst sz < 1 \<or> snd sz < 1")
  case True
  with assms show ?thesis by (simp add: rounded_fails)
next
  case False
  then have "1 \<le> fst sz" "1 \<le> snd sz" by simp_all
  from rounded_succeeds [OF this, of lib img] assms show ?thesis by auto
qed

lemma putalpha_rgb:
  assumes "putalpha im m = Inr im'"
  shows "red (pix im' x y) = red (pix im x y) \<and> green (pix im' x y) = green (pix im x y)
         \<and> blue (pix im' x y) = blue (pix im x y) \<and> alpha (pix im' x y) = pix m x y
         \<and> width im' = width im \<and> height im' = height im"
  using assms by (auto simp: putalpha_def split: if_splits)


text \<open>
  Claim C6. \<open>putalpha\<close> changes the alpha channel only; so at every position of the
  output the red, green and blue values are those of the resized image, also where
  the mask makes the pixel fully transparent.
\<close>

theorem alpha_overwrite_keeps_rgb:
  "(putalpha im m = Inr im' \<longrightarrow>
      (\<forall>x y. red (pix im' x y) = red (pix im x y) \<and> green (pix im' x y) = green (pix im x y)
             \<and> blue (pix im' x y) = blue (pix im x y)))
   \<and> (rounded lib img sz = Inr out \<longrightarrow>
      (\<exists>r. resize lib (cropped img) sz = Inr r \<and>
        (\<forall>x y. inside out x y \<longrightarrow>
           red (pix out x y) = red (pix r x y) \<and> green (pix out x y) = green (pix r x y)
           \<and> blue (pix out x y) = blue (pix r x y))))"
proof (intro conjI impI)
  assume "putalpha im m = Inr im'"
  then show "\<forall>x y. red (pix im' x y) = red (pix im x y) \<and> green (pix im' x y) = green (pix im x y)
             \<and> blue (pix im' x y) = blue (pix im x y)"
    by (simp add: putalpha_rgb)
next
  assume out: "rounded lib img sz = Inr out"
  show "\<exists>r. resize lib (cropped img) sz = Inr r \<and>
        (\<forall>x y. inside out x y \<longrightarrow>
           red (pix out x y) = red (pix r x y) \<and> green (pix out x y) = green (pix r x y)
           \<and> blue (pix out x y) = blue (pix r x y))"
  proof (cases "fst sz < 1 \<or> snd sz < 1")
    case True
    with out show ?thesis by (simp add: rounded_fails)
  next
    case False
    then have sz: "1 \<le> fst sz" "1 \<le> snd sz" by simp_all
    let ?r = "\<lparr>width = fst sz, height = snd sz, pix = lanczos lib (cropped img) sz\<rparr>"
    have "resize lib (cropped img) sz = Inr ?r"
      using sz by (simp add: resize_def)
    moreover have "\<forall>x y. inside out x y \<longrightarrow>
           red (pix out x y) = red (pix ?r x y) \<and> green (pix out x y) = green (pix ?r x y)
           \<and> blue (pix out x y) = blue (pix ?r x y)"
      using out rounded_succeeds [OF sz, of lib img] by (auto simp: inside_def)
    ultimately show ?thesis by blast
  qed
qed

theorem alpha_overwrite_keeps_rgb_witness:
  "\<exists>out. rounded nearest_lib stripes (4, 4) = Inr out \<and> inside out 0 0
     \<and> alpha (pix out 0 0) = 0 \<and> red (pix out 0 0) = 1 \<and> green (pix out 0 0) = 0
     \<and> blue (pix out 0 0) = 7"
proof -
  from rounded_succeeds [of "(4, 4)" nearest_lib stripes]
  have "\<exists>out. rounded nearest_lib stripes (4, 4) = Inr out \<and> inside out 0 0
     \<and> alpha (pix out 0 0) = 0"
    by (simp add: nearest_lib_def inside_def)
  then obtain out where out: "rounded nearest_lib stripes (4, 4) = Inr out"
    and ins: "inside out 0 0" and a: "alpha (pix out 0 0) = 0"
    by blast
  from alpha_overwrite_keeps_rgb [of out "\<lparr>width = 4, height = 4, pix = (\<lambda>x y. 255)\<rparr>" out
      nearest_lib stripes "(4, 4)" out] out ins
  obtain r where r: "resize nearest_lib (cropped stripes) (4, 4) = Inr r"
    and rgb: "red (pix out 0 0) = red (pix r 0 0)" "green (pix out 0 0) = green (pix r 0 0)"
      "blue (pix out 0 0) = blue (pix r 0 0)"
    by blast
  have px: "pix (cropped stripes) 0 0 = \<lparr>red = 1, green = 0, blue = 7, alpha = 255\<rparr>"
    by (simp add: cropped_def crop_def crop_box_eq stripes_def inside_def)
  from r have "pix r 0 0 = pix (cropped stripes) 0 0"
    by (auto simp: resize_def nearest_lib_def)
  with rgb px have "red (pix out 0 0) = 1 \<and> green (pix out 0 0) = 0 \<and> blue (pix out 0 0) = 7"
    by simp
  with out ins a show ?thesis by blast
qed

lemma crp_Inr_iff:
  "create_rounded_portrait lib w inp outp sz = Inr w' \<longleftrightarrow>
     (\<exists>img out. files w inp = Some (Picture img) \<and> rounded lib img sz = Inr out \<and> writable w outp
        \<and> w' = w\<lparr>files := (files w)(outp \<mapsto> Picture out),
                 console := console w @ [''Created '' @ outp]\<rparr>)"
  by (auto simp: create_rounded_portrait_def open_rgba_def save_def print_def
      split: option.splits entry.splits sum.splits if_splits)

text \<open>
  Claim C2. For an input file that holds an image, of any width and height, and a
  writable output path, the transform succeeds and the RGBA image it writes to the
  output path has exactly the requested size, for every size with sides of at least
  one; with the default size it is 50 by 50.
\<close>

theorem output_has_requested_size:
  assumes "files w input_path = Some (Picture img)" and "writable w output_path"
  shows "(1 \<le> fst sz \<and> 1 \<le> snd sz \<longrightarrow>
          (\<exists>w' out. create_rounded_portrait lib w input_path output_path sz = Inr w'
             \<and> files w' output_path = Some (Picture out)
             \<and> width out = fst sz \<and> height out = snd sz))
       \<and> (\<exists>w' out. create_rounded_portrait lib w input_path output_path default_size = Inr w'
             \<and> files w' output_path = Some (Picture out)
             \<and> width out = 50 \<and> height out = 50)"
proof -
  have *: "\<exists>w' out. create_rounded_portrait lib w input_path output_path s = Inr w'
             \<and> files w' output_path = Some (Picture out)
             \<and> width out = fst s \<and> height out = snd s"
    if s: "1 \<le> fst s" "1 \<le> snd s" for s
  proof -
    from rounded_succeeds [OF s, of lib img]
    obtain out where out: "rounded lib img s = Inr out" by blast
    let ?w' = "w\<lparr>files := (files w)(output_path \<mapsto> Picture out),
                 console := console w @ [''Created '' @ output_path]\<rparr>"
    have "create_rounded_portrait lib w input_path output_path s = Inr ?w'"
      unfolding crp_Inr_iff using assms out by blast
    moreover have "files ?w' output_path = Some (Picture out)" by simp
    ultimately show ?thesis using rounded_size [OF out] by blast
  qed
  from * [of sz] * [of default_size] show ?thesis
    by (simp add: default_size_def)
qed

theorem output_has_requested_size_witness:
  "files studio ''socrates.jpg'' = Some (Picture stripes)
   \<and> writable studio ''socrates-rounded.png''
   \<and> (\<exists>w' out. create_rounded_portrait nearest_lib studio ''socrates.jpg'' ''socrates-rounded.png''
          (50, 50) = Inr w'
        \<and> files w' ''socrates-rounded.png'' = Some (Picture out)
        \<and> width out = 50 \<and> height out = 50)"
proof -
  have f: "files studio ''socrates.jpg'' = Some (Picture stripes)"
    by (simp add: studio_def)
  have wr: "writable studio ''socrates-rounded.png''"
    by (simp add: studio_def)
  from output_has_requested_size [OF f wr, of "(50, 50)" nearest_lib] f wr
  show ?thesis by simp
qed


subsection \<open>The driver\<close>

lemma crp_frame:
  assumes "create_rounded_portrait lib w inp outp sz = Inr w'"
  shows "writable w' = writable w" and "console w' = console w @ [''Created '' @ outp]"
    and "p \<noteq> outp \<Longrightarrow> files w' p = files w p"
  using assms unfolding crp_Inr_iff by auto

lemma crp_transfer:
  assumes "create_rounded_portrait lib w inp outp sz = Inr v"
    and "files w2 inp = files w inp" and "writable w2 outp = writable w outp"
  shows "\<exists>v2. create_rounded_portrait lib w2 inp outp sz = Inr v2 \<and> files v2 outp = files v outp"
proof -
  from assms(1) obtain img out where io: "files w inp = Some (Picture img)"
    "rounded lib img sz = Inr out" "writable w outp"
    and v: "v = w\<lparr>files := (files w)(outp \<mapsto> Picture out),
                 console := console w @ [''Created '' @ outp]\<rparr>"
    unfolding crp_Inr_iff by blast
  let ?v2 = "w2\<lparr>files := (files w2)(outp \<mapsto> Picture out),
                 console := console w2 @ [''Created '' @ outp]\<rparr>"
  have "create_rounded_portrait lib w2 inp outp sz = Inr ?v2"
    unfolding crp_Inr_iff using io assms(2,3) by auto
  moreover have "files ?v2 outp = files v outp" by (simp add: v)
  ultimately show ?thesis by blast
qed

lemma process_pair_frame:
  assumes "process_pair lib w (inp, outp) = Inr w'"
  shows "writable w' = writable w" and "console w' = console w @ [report w (inp, outp)]"
    and "p \<noteq> outp \<Longrightarrow> files w' p = files w p"
    and "\<not> path_exists w inp \<Longrightarrow> files w' = files w"
    and "path_exists w inp \<Longrightarrow> create_rounded_portrait lib w inp outp default_size = Inr w'"
  using assms crp_frame [of lib w inp outp default_size w']
  by (auto simp: process_pair_def report_def print_def split: if_splits)

lemma process_pairs_run:
  assumes "process_pairs lib w ps = Inr w'"
    and "fst ` set ps \<inter> snd ` set ps = {}" and "distinct (map snd ps)"
  shows "console w' = console w @ map (report w) ps
    \<and> writable w' = writable w
    \<and> (\<forall>(inp, outp) \<in> set ps.
         if path_exists w inp
         then \<exists>v. create_rounded_portrait lib w inp outp default_size = Inr v
                \<and> files w' outp = files v outp
         else files w' outp = files w outp)
    \<and> (\<forall>p. p \<notin> snd ` set ps \<longrightarrow> files w' p = files w p)"
  using assms
proof (induction ps arbitrary: w)
  case Nil
  then show ?case by simp
next
  case (Cons pr ps)
  obtain inp outp where pr: "pr = (inp, outp)" by (cases pr)
  from Cons.prems(1) obtain w1 where w1: "process_pair lib w (inp, outp) = Inr w1"
    and rest: "process_pairs lib w1 ps = Inr w'"
    by (auto simp: pr split: sum.splits)
  from Cons.prems(2,3) have disj: "fst ` set ps \<inter> snd ` set ps = {}" and dist: "distinct (map snd ps)"
    and fresh: "outp \<notin> snd ` set ps" and noin: "outp \<notin> fst ` set ps" "inp \<noteq> outp"
    and noin2: "inp \<notin> snd ` set ps"
    by (auto simp: pr)
  note IH = Cons.IH [OF rest disj dist]
  note fr = process_pair_frame [OF w1]
  have same_in: "files w1 i = files w i" if "i \<in> fst ` set ps" for i
    using that noin fr(3) by metis
  have same_rep: "report w1 q = report w q" if "q \<in> set ps" for q
  proof -
    obtain i t where q: "q = (i, t)" by (cases q)
    with that have "i \<in> fst ` set ps" by force
    then show ?thesis by (simp add: q report_def path_exists_def same_in)
  qed
  have c: "console w' = console w @ map (report w) (pr # ps)"
    using IH fr(2) same_rep by (simp add: pr cong: map_cong)
  have wr: "writable w' = writable w"
    using IH fr(1) by simp
  have other: "\<forall>p. p \<notin> snd ` set (pr # ps) \<longrightarrow> files w' p = files w p"
    using IH fr(3) by (simp add: pr)
  have head: "if path_exists w inp
         then \<exists>v. create_rounded_portrait lib w inp outp default_size = Inr v
                \<and> files w' outp = files v outp
         else files w' outp = files w outp"
  proof -
    have "files w' outp = files w1 outp" using IH fresh by blast
    then show ?thesis using fr(4,5) by auto
  qed
  have tail: "if path_exists w i
         then \<exists>v. create_rounded_portrait lib w i t default_size = Inr v
                \<and> files w' t = files v t
         else files w' t = files w t" if q: "(i, t) \<in> set ps" for i t
  proof -
    from q have i: "i \<in> fst ` set ps" and t: "t \<in> snd ` set ps" by force+
    from i have fi: "files w1 i = files w i" by (rule same_in)
    from t fresh have tn: "t \<noteq> outp" by auto
    from IH q have h: "if path_exists w1 i
         then \<exists>v. create_rounded_portrait lib w1 i t default_size = Inr v
                \<and> files w' t = files v t
         else files w' t = files w1 t" by blast
    show ?thesis
    proof (cases "path_exists w i")
      case True
      then have "path_exists w1 i" by (simp add: path_exists_def fi)
      with h obtain v1 where v1: "create_rounded_portrait lib w1 i t default_size = Inr v1"
        "files w' t = files v1 t" by auto
      from crp_transfer [OF v1(1), of w] fi fr(1)
      obtain v where "create_rounded_portrait lib w i t default_size = Inr v"
        "files v t = files v1 t" by auto
      with v1 True show ?thesis by auto
    next
      case False
      then have "\<not> path_exists w1 i" by (simp add: path_exists_def fi)
      with h have "files w' t = files w1 t" by simp
      with fr(3) [OF tn] False show ?thesis by simp
    qed
  qed
  from c wr other head tail show ?case
    by (auto simp: pr)
qed


lemma crp_succeeds:
  assumes "files w inp = Some (Picture img)" and "writable w outp"
  shows "\<exists>v. create_rounded_portrait lib w inp outp default_size = Inr v"
proof -
  from rounded_succeeds [of default_size lib img]
  obtain out where "rounded lib img default_size = Inr out"
    by (auto simp: default_size_def)
  with assms show ?thesis unfolding crp_Inr_iff by blast
qed

lemma process_pairs_succeeds:
  assumes "ready w ps" and "fst ` set ps \<inter> snd ` set ps = {}"
  shows "\<exists>w'. process_pairs lib w ps = Inr w'"
  using assms
proof (induction ps arbitrary: w)
  case Nil
  then show ?case by simp
next
  case (Cons pr ps)
  obtain inp outp where pr: "pr = (inp, outp)" by (cases pr)
  from Cons.prems(2) have disj: "fst ` set ps \<inter> snd ` set ps = {}"
    and noin: "outp \<notin> fst ` set ps"
    by (auto simp: pr)
  have "\<exists>w1. process_pair lib w (inp, outp) = Inr w1"
  proof (cases "path_exists w inp")
    case True
    with Cons.prems(1) obtain img where "files w inp = Some (Picture img)" "writable w outp"
      by (auto simp: ready_def pr)
    from crp_succeeds [OF this, of lib] True show ?thesis
      by (simp add: process_pair_def)
  next
    case False
    then show ?thesis by (simp add: process_pair_def)
  qed
  then obtain w1 where w1: "process_pair lib w (inp, outp) = Inr w1" by blast
  note fr = process_pair_frame [OF w1]
  have "ready w1 ps"
    unfolding ready_def
  proof (intro ballI, clarify)
    fix i t
    assume q: "(i, t) \<in> set ps" and ex: "path_exists w1 i"
    from q have "i \<in> fst ` set ps" by force
    with noin have "i \<noteq> outp" by auto
    from fr(3) [OF this] have fi: "files w1 i = files w i" .
    with ex have "path_exists w i" by (simp add: path_exists_def)
    with Cons.prems(1) q have "(\<exists>img. files w i = Some (Picture img)) \<and> writable w t"
      by (auto simp: ready_def pr)
    then show "(\<exists>img. files w1 i = Some (Picture img)) \<and> writable w1 t"
      by (simp add: fi fr(1))
  qed
  from Cons.IH [OF this disj] obtain w' where "process_pairs lib w1 ps = Inr w'" by blast
  with w1 show ?case by (simp add: pr)
qed

lemma philosophers_names:
  "fst ` set philosophers \<inter> snd ` set philosophers = {}" "distinct (map snd philosophers)"
  by (simp_all add: philosophers_def)


lemma process_pairs_again:
  assumes run: "process_pairs lib w ps = Inr w0"
    and disj: "fst ` set ps \<inter> snd ` set ps = {}" and dist: "distinct (map snd ps)"
    and same: "files w1 = files w0" "writable w1 = writable w0"
  shows "\<exists>w2. process_pairs lib w1 ps = Inr w2 \<and> files w2 = files w1"
proof -
  note R = process_pairs_run [OF run disj dist]
  have inputs: "files w1 i = files w i" if "i \<in> fst ` set ps" for i
  proof -
    from that disj have "i \<notin> snd ` set ps" by blast
    with R same(1) show ?thesis by simp
  qed
  have wr: "writable w1 = writable w" using R same(2) by simp
  have made: "\<exists>v. create_rounded_portrait lib w i t default_size = Inr v \<and> files w1 t = files v t"
    if "(i, t) \<in> set ps" "path_exists w1 i" for i t
  proof -
    from that(1) have "i \<in> fst ` set ps" by force
    with that(2) have "path_exists w i" by (simp add: path_exists_def inputs)
    with R that(1) show ?thesis by (auto simp: same(1))
  qed
  have "ready w1 ps"
    unfolding ready_def
  proof (intro ballI, clarify)
    fix i t
    assume q: "(i, t) \<in> set ps" and ex: "path_exists w1 i"
    from made [OF q ex] obtain v where "create_rounded_portrait lib w i t default_size = Inr v"
      by blast
    then have "(\<exists>img. files w i = Some (Picture img)) \<and> writable w t"
      unfolding crp_Inr_iff by blast
    moreover from q have "i \<in> fst ` set ps" by force
    ultimately show "(\<exists>img. files w1 i = Some (Picture img)) \<and> writable w1 t"
      by (simp add: inputs wr)
  qed
  from process_pairs_succeeds [OF this disj]
  obtain w2 where run2: "process_pairs lib w1 ps = Inr w2" by blast
  note R2 = process_pairs_run [OF run2 disj dist]
  have again: "if path_exists w1 i
      then \<exists>v. create_rounded_portrait lib w1 i t default_size = Inr v \<and> files w2 t = files v t
      else files w2 t = files w1 t" if "(i, t) \<in> set ps" for i t
  proof -
    from R2 have "\<forall>(inp, outp) \<in> set ps.
         if path_exists w1 inp
         then \<exists>v. create_rounded_portrait lib w1 inp outp default_size = Inr v
                \<and> files w2 outp = files v outp
         else files w2 outp = files w1 outp" by blast
    from bspec [OF this that] show ?thesis by simp
  qed
  have "files w2 p = files w1 p" for p
  proof (cases "p \<in> snd ` set ps")
    case False
    with R2 show ?thesis by simp
  next
    case True
    then obtain i where q: "(i, p) \<in> set ps" by force
    then have i: "i \<in> fst ` set ps" by force
    show ?thesis
    proof (cases "path_exists w1 i")
      case True
      from made [OF q True] obtain v
        where v: "create_rounded_portrait lib w i p default_size = Inr v" "files w1 p = files v p"
        by blast
      from again [OF q] True obtain v'
        where v': "create_rounded_portrait lib w1 i p default_size = Inr v'" "files w2 p = files v' p"
        by auto
      from crp_transfer [OF v(1), of w1] inputs [OF i] wr v'(1)
      have "files v' p = files v p" by auto
      with v v' show ?thesis by simp
    next
      case False
      with again [OF q] show ?thesis by simp
    qed
  qed
  then have "files w2 = files w1" by (rule ext)
  with run2 show ?thesis by blast
qed

text \<open>
  Claim C7. The transform is deterministic: the file it writes depends on the
  content of the input file and on the size only, so two runs from directories that
  hold the same input write the same output; and a second run of the driver, on the
  directory the first run left, succeeds again and leaves every file as it is, each
  output overwritten by an equal one. The library's decoder, filter, rasteriser and
  encoder are functions here, as the claim's "deterministic resampling" supposes.
\<close>

theorem transform_deterministic:
  "(create_rounded_portrait lib w1 input_path output_path sz = Inr v1 \<and>
    files w2 input_path = files w1 input_path \<and> writable w2 output_path \<longrightarrow>
      (\<exists>v2. create_rounded_portrait lib w2 input_path output_path sz = Inr v2
         \<and> files v2 output_path = files v1 output_path))
   \<and> (main lib w = Inr w' \<longrightarrow> (\<exists>w''. main lib w' = Inr w'' \<and> files w'' = files w'))"
proof (intro conjI impI)
  assume a: "create_rounded_portrait lib w1 input_path output_path sz = Inr v1 \<and>
    files w2 input_path = files w1 input_path \<and> writable w2 output_path"
  then have "writable w1 output_path" unfolding crp_Inr_iff by blast
  with a crp_transfer [of lib w1 input_path output_path sz v1 w2]
  show "\<exists>v2. create_rounded_portrait lib w2 input_path output_path sz = Inr v2
         \<and> files v2 output_path = files v1 output_path"
    by simp
next
  assume "main lib w = Inr w'"
  then obtain w0 where run: "process_pairs lib w philosophers = Inr w0"
    and w': "files w' = files w0" "writable w' = writable w0"
    by (auto simp: main_def print_def split: sum.splits)
  from process_pairs_again [OF run philosophers_names w']
  obtain w2 where "process_pairs lib w' philosophers = Inr w2" "files w2 = files w'" by blast
  then show "\<exists>w''. main lib w' = Inr w'' \<and> files w'' = files w'"
    by (simp add: main_def print_def)
qed

lemma ready_studio: "ready studio philosophers"
  by (simp add: ready_def philosophers_def studio_def path_exists_def)

theorem transform_deterministic_witness:
  "(\<exists>v1 v2. create_rounded_portrait nearest_lib studio ''socrates.jpg'' ''a.png'' (4, 4) = Inr v1
      \<and> create_rounded_portrait nearest_lib (studio\<lparr>console := [''before'']\<rparr>) ''socrates.jpg'' ''a.png''
           (4, 4) = Inr v2
      \<and> files v2 ''a.png'' = files v1 ''a.png'')
   \<and> (\<exists>w' w''. main nearest_lib studio = Inr w' \<and> main nearest_lib w' = Inr w''
        \<and> files w'' = files w')"
proof -
  have "\<exists>v1. create_rounded_portrait nearest_lib studio ''socrates.jpg'' ''a.png'' (4, 4) = Inr v1"
    unfolding crp_Inr_iff using rounded_succeeds [of "(4, 4)" nearest_lib stripes]
    by (simp add: studio_def)
  then obtain v1
    where v1: "create_rounded_portrait nearest_lib studio ''socrates.jpg'' ''a.png'' (4, 4) = Inr v1"
    by blast
  from process_pairs_succeeds [OF ready_studio philosophers_names(1), of nearest_lib]
  obtain w' where w': "main nearest_lib studio = Inr w'"
    by (auto simp: main_def)
  from transform_deterministic [of nearest_lib studio "''socrates.jpg''" "''a.png''" "(4, 4)" v1
      "studio\<lparr>console := [''before'']\<rparr>" studio w'] v1 w'
  show ?thesis by (simp add: studio_def)
qed


text \<open>
  Claim C5. The driver's list is the five pairs socrates, plato, aristotle, nietzsche,
  descartes, from \<open>.jpg\<close> to \<open>-rounded.png\<close>, in this order. When every input
  that exists holds an image and its output path is writable, the run completes; it
  prints one line for each pair in the order of the list, then the two closing lines;
  for each pair whose input exists the output file is the one that the transform
  with size 50 by 50 writes for that input, for each other pair the output path is
  left as it was, and no other file changes.
\<close>

theorem driver_processes_five_pairs:
  "philosophers =
     [(''socrates.jpg'', ''socrates-rounded.png''), (''plato.jpg'', ''plato-rounded.png''),
      (''aristotle.jpg'', ''aristotle-rounded.png''), (''nietzsche.jpg'', ''nietzsche-rounded.png''),
      (''descartes.jpg'', ''descartes-rounded.png'')]
   \<and> (ready w philosophers \<longrightarrow>
        (\<exists>w'. main lib w = Inr w'
           \<and> console w' = console w @ map (report w) philosophers
               @ [CHR 0x0A # ''All portraits processed!'',
                  ''Move the -rounded.png files to the parent directory to use them.'']
           \<and> (\<forall>(inp, outp) \<in> set philosophers.
                 if path_exists w inp
                 then \<exists>v. create_rounded_portrait lib w inp outp (50, 50) = Inr v
                        \<and> files w' outp = files v outp
                 else files w' outp = files w outp)
           \<and> (\<forall>p. p \<notin> snd ` set philosophers \<longrightarrow> files w' p = files w p)))"
proof (intro conjI impI)
  show "philosophers =
     [(''socrates.jpg'', ''socrates-rounded.png''), (''plato.jpg'', ''plato-rounded.png''),
      (''aristotle.jpg'', ''aristotle-rounded.png''), (''nietzsche.jpg'', ''nietzsche-rounded.png''),
      (''descartes.jpg'', ''descartes-rounded.png'')]"
    by (rule philosophers_def)
next
  assume rd: "ready w philosophers"
  from process_pairs_succeeds [OF rd philosophers_names(1), of lib]
  obtain w0 where run: "process_pairs lib w philosophers = Inr w0" by blast
  let ?w' = "print (print w0 (CHR 0x0A # ''All portraits processed!''))
                 ''Move the -rounded.png files to the parent directory to use them.''"
  note R = process_pairs_run [OF run philosophers_names]
  have m: "main lib w = Inr ?w'"
    by (simp add: main_def run)
  have c: "console ?w' = console w @ map (report w) philosophers
       @ [CHR 0x0A # ''All portraits processed!'',
          ''Move the -rounded.png files to the parent directory to use them.'']"
    using R by (simp add: print_def)
  have f: "files ?w' = files w0"
    by (simp add: print_def)
  have made: "\<forall>(inp, outp) \<in> set philosophers.
         if path_exists w inp
         then \<exists>v. create_rounded_portrait lib w inp outp (50, 50) = Inr v
                \<and> files ?w' outp = files v outp
         else files ?w' outp = files w outp"
    using R unfolding f default_size_def by blast
  have other: "\<forall>p. p \<notin> snd ` set philosophers \<longrightarrow> files ?w' p = files w p"
    using R unfolding f by blast
  from m c made other
  show "\<exists>w'. main lib w = Inr w'
           \<and> console w' = console w @ map (report w) philosophers
               @ [CHR 0x0A # ''All portraits processed!'',
                  ''Move the -rounded.png files to the parent directory to use them.'']
           \<and> (\<forall>(inp, outp) \<in> set philosophers.
                 if path_exists w inp
                 then \<exists>v. create_rounded_portrait lib w inp outp (50, 50) = Inr v
                        \<and> files w' outp = files v outp
                 else files w' outp = files w outp)
           \<and> (\<forall>p. p \<notin> snd ` set philosophers \<longrightarrow> files w' p = files w p)"
    by (intro exI [of _ ?w'] conjI)
qed


theorem driver_processes_five_pairs_witness:
  "ready studio philosophers
   \<and> (\<exists>w'. main nearest_lib studio = Inr w'
        \<and> console w' =
            [''Created socrates-rounded.png'', ''Warning: plato.jpg not found'',
             ''Warning: aristotle.jpg not found'', ''Warning: nietzsche.jpg not found'',
             ''Warning: descartes.jpg not found'', CHR 0x0A # ''All portraits processed!'',
             ''Move the -rounded.png files to the parent directory to use them.'']
        \<and> files w' ''plato-rounded.png'' = None
        \<and> files w' ''socrates.jpg'' = Some (Picture stripes))"
proof -
  have ex: "path_exists studio ''socrates.jpg''" "\<not> path_exists studio ''plato.jpg''"
    "\<not> path_exists studio ''aristotle.jpg''" "\<not> path_exists studio ''nietzsche.jpg''"
    "\<not> path_exists studio ''descartes.jpg''"
    by (simp_all add: path_exists_def studio_def)
  have lines: "console studio @ map (report studio) philosophers =
      [''Created socrates-rounded.png'', ''Warning: plato.jpg not found'',
       ''Warning: aristotle.jpg not found'', ''Warning: nietzsche.jpg not found'',
       ''Warning: descartes.jpg not found'']"
    by (simp add: philosophers_def report_def ex) (simp add: studio_def)
  have q: "(''plato.jpg'', ''plato-rounded.png'') \<in> set philosophers"
    by (simp add: philosophers_def)
  have n: "''socrates.jpg'' \<notin> snd ` set philosophers"
    by (simp add: philosophers_def)
  from driver_processes_five_pairs [of studio nearest_lib]
  have "ready studio philosophers \<longrightarrow>
        (\<exists>w'. main nearest_lib studio = Inr w'
           \<and> console w' = console studio @ map (report studio) philosophers
               @ [CHR 0x0A # ''All portraits processed!'',
                  ''Move the -rounded.png files to the parent directory to use them.'']
           \<and> (\<forall>(inp, outp) \<in> set philosophers.
                 if path_exists studio inp
                 then \<exists>v. create_rounded_portrait nearest_lib studio inp outp (50, 50) = Inr v
                        \<and> files w' outp = files v outp
                 else files w' outp = files studio outp)
           \<and> (\<forall>p. p \<notin> snd ` set philosophers \<longrightarrow> files w' p = files studio p))"
    by (rule conjunct2)
  from mp [OF this ready_studio]
  obtain w' where m: "main nearest_lib studio = Inr w'"
    and c: "console w' = console studio @ map (report studio) philosophers
               @ [CHR 0x0A # ''All portraits processed!'',
                  ''Move the -rounded.png files to the parent directory to use them.'']"
    and made: "\<forall>(inp, outp) \<in> set philosophers.
                 if path_exists studio inp
                 then \<exists>v. create_rounded_portrait nearest_lib studio inp outp (50, 50) = Inr v
                        \<and> files w' outp = files v outp
                 else files w' outp = files studio outp"
    and other: "\<forall>p. p \<notin> snd ` set philosophers \<longrightarrow> files w' p = files studio p"
    by (elim exE conjE)
  from c have c': "console w' =
            [''Created socrates-rounded.png'', ''Warning: plato.jpg not found'',
             ''Warning: aristotle.jpg not found'', ''Warning: nietzsche.jpg not found'',
             ''Warning: descartes.jpg not found'', CHR 0x0A # ''All portraits processed!'',
             ''Move the -rounded.png files to the parent directory to use them.'']"
    by (simp only: append_assoc [symmetric] lines) simp
  from bspec [OF made q] ex(2)
  have "files w' ''plato-rounded.png'' = files studio ''plato-rounded.png''"
    by simp
  then have p: "files w' ''plato-rounded.png'' = None"
    by (simp add: studio_def)
  from mp [OF spec [OF other] n]
  have "files w' ''socrates.jpg'' = files studio ''socrates.jpg''" .
  then have s: "files w' ''socrates.jpg'' = Some (Picture stripes)"
    by (simp add: studio_def)
  from m c' p s
  have "\<exists>w'. main nearest_lib studio = Inr w'
        \<and> console w' =
            [''Created socrates-rounded.png'', ''Warning: plato.jpg not found'',
             ''Warning: aristotle.jpg not found'', ''Warning: nietzsche.jpg not found'',
             ''Warning: descartes.jpg not found'', CHR 0x0A # ''All portraits processed!'',
             ''Move the -rounded.png files to the parent directory to use them.'']
        \<and> files w' ''plato-rounded.png'' = None
        \<and> files w' ''socrates.jpg'' = Some (Picture stripes)"
    by (intro exI [of _ w'] conjI)
  with ready_studio show ?thesis by (rule conjI)
qed


text \<open>
  Claim C4. For a pair whose input file does not exist, the loop body raises nothing,
  prints the warning that names this input, changes no file, and the loop goes on
  with the remaining pairs; in a completed run the warning of every missing input is
  on the console and its output path is left as it was; and when none of the five
  inputs exists, the run completes with the five warnings and the two closing lines
  printed and no file created.
\<close>

theorem missing_input_is_skipped:
  "(\<not> path_exists w input_file \<longrightarrow>
      process_pair lib w (input_file, output_file) =
        Inr (w\<lparr>console := console w @ [''Warning: '' @ input_file @ '' not found'']\<rparr>)
      \<and> process_pairs lib w ((input_file, output_file) # rest) =
        process_pairs lib
          (w\<lparr>console := console w @ [''Warning: '' @ input_file @ '' not found'']\<rparr>) rest)
   \<and> (main lib w = Inr w' \<longrightarrow>
        (\<forall>(inp, outp) \<in> set philosophers. \<not> path_exists w inp \<longrightarrow>
           ''Warning: '' @ inp @ '' not found'' \<in> set (console w') \<and> files w' outp = files w outp))
   \<and> (\<not> path_exists w ''socrates.jpg'' \<and> \<not> path_exists w ''plato.jpg''
       \<and> \<not> path_exists w ''aristotle.jpg'' \<and> \<not> path_exists w ''nietzsche.jpg''
       \<and> \<not> path_exists w ''descartes.jpg'' \<longrightarrow>
        main lib w =
          Inr (w\<lparr>console := console w @
            [''Warning: socrates.jpg not found'', ''Warning: plato.jpg not found'',
             ''Warning: aristotle.jpg not found'', ''Warning: nietzsche.jpg not found'',
             ''Warning: descartes.jpg not found'', CHR 0x0A # ''All portraits processed!'',
             ''Move the -rounded.png files to the parent directory to use them.'']\<rparr>))"
proof (intro conjI impI)
  assume "\<not> path_exists w input_file"
  then show "process_pair lib w (input_file, output_file) =
        Inr (w\<lparr>console := console w @ [''Warning: '' @ input_file @ '' not found'']\<rparr>)"
    by (simp add: process_pair_def print_def)
next
  assume "\<not> path_exists w input_file"
  then show "process_pairs lib w ((input_file, output_file) # rest) =
        process_pairs lib
          (w\<lparr>console := console w @ [''Warning: '' @ input_file @ '' not found'']\<rparr>) rest"
    by (simp add: process_pair_def print_def)
next
  assume "main lib w = Inr w'"
  then obtain w0 where run: "process_pairs lib w philosophers = Inr w0"
    and w': "files w' = files w0"
      "console w' = console w0 @ [CHR 0x0A # ''All portraits processed!'',
          ''Move the -rounded.png files to the parent directory to use them.'']"
    by (auto simp: main_def print_def split: sum.splits)
  note R = process_pairs_run [OF run philosophers_names]
  show "\<forall>(inp, outp) \<in> set philosophers. \<not> path_exists w inp \<longrightarrow>
           ''Warning: '' @ inp @ '' not found'' \<in> set (console w') \<and> files w' outp = files w outp"
  proof (intro ballI, clarify)
    fix inp outp
    assume q: "(inp, outp) \<in> set philosophers" and no: "\<not> path_exists w inp"
    from R have "\<forall>(inp, outp) \<in> set philosophers.
         if path_exists w inp
         then \<exists>v. create_rounded_portrait lib w inp outp default_size = Inr v
                \<and> files w0 outp = files v outp
         else files w0 outp = files w outp" by blast
    from bspec [OF this q] no have f: "files w' outp = files w outp"
      by (simp add: w'(1))
    from no have "report w (inp, outp) = ''Warning: '' @ inp @ '' not found''"
      by (simp add: report_def)
    with q have "''Warning: '' @ inp @ '' not found'' \<in> set (map (report w) philosophers)"
      by force
    with R have "''Warning: '' @ inp @ '' not found'' \<in> set (console w')"
      by (simp add: w'(2))
    with f show "''Warning: '' @ inp @ '' not found'' \<in> set (console w') \<and> files w' outp = files w outp"
      by simp
  qed
next
  assume "\<not> path_exists w ''socrates.jpg'' \<and> \<not> path_exists w ''plato.jpg''
       \<and> \<not> path_exists w ''aristotle.jpg'' \<and> \<not> path_exists w ''nietzsche.jpg''
       \<and> \<not> path_exists w ''descartes.jpg''"
  then show "main lib w =
          Inr (w\<lparr>console := console w @
            [''Warning: socrates.jpg not found'', ''Warning: plato.jpg not found'',
             ''Warning: aristotle.jpg not found'', ''Warning: nietzsche.jpg not found'',
             ''Warning: descartes.jpg not found'', CHR 0x0A # ''All portraits processed!'',
             ''Move the -rounded.png files to the parent directory to use them.'']\<rparr>)"
    by (simp add: main_def philosophers_def process_pair_def print_def path_exists_def)
qed


theorem missing_input_is_skipped_witness:
  "\<not> path_exists studio ''plato.jpg''
   \<and> process_pair nearest_lib studio (''plato.jpg'', ''plato-rounded.png'') =
        Inr (studio\<lparr>console := console studio @ [''Warning: '' @ ''plato.jpg'' @ '' not found'']\<rparr>)
   \<and> (\<exists>w'. main nearest_lib studio = Inr w'
        \<and> ''Warning: '' @ ''plato.jpg'' @ '' not found'' \<in> set (console w')
        \<and> files w' ''plato-rounded.png'' = files studio ''plato-rounded.png'')
   \<and> main nearest_lib (studio\<lparr>files := Map.empty\<rparr>) =
        Inr (studio\<lparr>files := Map.empty, console := console studio @
            [''Warning: socrates.jpg not found'', ''Warning: plato.jpg not found'',
             ''Warning: aristotle.jpg not found'', ''Warning: nietzsche.jpg not found'',
             ''Warning: descartes.jpg not found'', CHR 0x0A # ''All portraits processed!'',
             ''Move the -rounded.png files to the parent directory to use them.'']\<rparr>)"
proof -
  let ?empty = "studio\<lparr>files := Map.empty\<rparr>"
  have no: "\<not> path_exists studio ''plato.jpg''"
    by (simp add: path_exists_def studio_def)
  from process_pairs_succeeds [OF ready_studio philosophers_names(1), of nearest_lib]
  obtain w0 where "process_pairs nearest_lib studio philosophers = Inr w0" by (rule exE)
  then obtain w' where w': "main nearest_lib studio = Inr w'"
    by (simp add: main_def)
  have q: "(''plato.jpg'', ''plato-rounded.png'') \<in> set philosophers"
    by (simp add: philosophers_def)
  note T = missing_input_is_skipped [of studio "''plato.jpg''" nearest_lib "''plato-rounded.png''"
      "[]" w']
  from T have "\<not> path_exists studio ''plato.jpg'' \<longrightarrow>
      process_pair nearest_lib studio (''plato.jpg'', ''plato-rounded.png'') =
        Inr (studio\<lparr>console := console studio @ [''Warning: '' @ ''plato.jpg'' @ '' not found'']\<rparr>)
      \<and> process_pairs nearest_lib studio [(''plato.jpg'', ''plato-rounded.png'')] =
        process_pairs nearest_lib
          (studio\<lparr>console := console studio @ [''Warning: '' @ ''plato.jpg'' @ '' not found'']\<rparr>) []"
    by (rule conjunct1)
  from mp [OF this no]
  have a: "process_pair nearest_lib studio (''plato.jpg'', ''plato-rounded.png'') =
        Inr (studio\<lparr>console := console studio @ [''Warning: '' @ ''plato.jpg'' @ '' not found'']\<rparr>)"
    by (rule conjunct1)
  from T have "main nearest_lib studio = Inr w' \<longrightarrow>
        (\<forall>(inp, outp) \<in> set philosophers. \<not> path_exists studio inp \<longrightarrow>
           ''Warning: '' @ inp @ '' not found'' \<in> set (console w')
           \<and> files w' outp = files studio outp)"
    by (elim conjE)
  from bspec [OF mp [OF this w'] q] no
  have b: "''Warning: '' @ ''plato.jpg'' @ '' not found'' \<in> set (console w')
        \<and> files w' ''plato-rounded.png'' = files studio ''plato-rounded.png''"
    by simp
  have none: "\<not> path_exists ?empty ''socrates.jpg'' \<and> \<not> path_exists ?empty ''plato.jpg''
       \<and> \<not> path_exists ?empty ''aristotle.jpg'' \<and> \<not> path_exists ?empty ''nietzsche.jpg''
       \<and> \<not> path_exists ?empty ''descartes.jpg''"
    by (simp add: path_exists_def)
  from missing_input_is_skipped [of ?empty "''plato.jpg''" nearest_lib "''plato-rounded.png''"
      "[]" w']
  have "\<not> path_exists ?empty ''socrates.jpg'' \<and> \<not> path_exists ?empty ''plato.jpg''
       \<and> \<not> path_exists ?empty ''aristotle.jpg'' \<and> \<not> path_exists ?empty ''nietzsche.jpg''
       \<and> \<not> path_exists ?empty ''descartes.jpg'' \<longrightarrow>
        main nearest_lib ?empty =
          Inr (?empty\<lparr>console := console ?empty @
            [''Warning: socrates.jpg not found'', ''Warning: plato.jpg not found'',
             ''Warning: aristotle.jpg not found'', ''Warning: nietzsche.jpg not found'',
             ''Warning: descartes.jpg not found'', CHR 0x0A # ''All portraits processed!'',
             ''Move the -rounded.png files to the parent directory to use them.'']\<rparr>)"
    by (elim conjE)
  from mp [OF this none]
  have c: "main nearest_lib ?empty =
        Inr (studio\<lparr>files := Map.empty, console := console studio @
            [''Warning: socrates.jpg not found'', ''Warning: plato.jpg not found'',
             ''Warning: aristotle.jpg not found'', ''Warning: nietzsche.jpg not found'',
             ''Warning: descartes.jpg not found'', CHR 0x0A # ''All portraits processed!'',
             ''Move the -rounded.png files to the parent directory to use them.'']\<rparr>)"
    by simp
  from w' b have "\<exists>w'. main nearest_lib studio = Inr w'
        \<and> ''Warning: '' @ ''plato.jpg'' @ '' not found'' \<in> set (console w')
        \<and> files w' ''plato-rounded.png'' = files studio ''plato-rounded.png''"
    by (intro exI [of _ w'] conjI) simp_all
  with no a c show ?thesis by (intro conjI)
qed

text \<open>
  Whatever the rasteriser fills, the mask holds only 0 and 255, and so does the alpha
  channel of the output: 255 at the positions of the output that the ellipse drawn
  for the box \<open>(0, 0, w, h)\<close> covers, 0 elsewhere.
\<close>

lemma rounded_alpha:
  assumes "rounded lib img sz = Inr out"
  shows "alpha (pix out x y) =
     (if inside out x y \<and> ellipse_fills lib (0, 0, fst sz, snd sz) x y then 255 else 0)"
proof (cases "fst sz < 1 \<or> snd sz < 1")
  case True
  with assms show ?thesis by (simp add: rounded_fails)
next
  case False
  then have "1 \<le> fst sz" "1 \<le> snd sz" by simp_all
  from rounded_succeeds [OF this, of lib img] assms show ?thesis
    by (auto simp: inside_def)
qed

end
